theory Spec2Isabelle
  imports Main "HOL-Library.Word"
begin

unbundle bit_operations_syntax

section \<open>Data model of drivers/base/power/cpu\_domains.c\<close>

text \<open>
  The model follows the version of the file that carries the power-down governor
  (\<open>cpu_pd_down_ok\<close>) and the per-domain CPU mask. The kernel runs it on a 64-bit
  target (LP64): \<open>int\<close> is 32 bits, \<open>long\<close>, \<open>s64\<close> and \<open>u64\<close> are 64 bits.
  Objects live in two heaps indexed by address; a pointer is an address and
  \<open>NULL\<close> is \<open>None\<close>. An object that \<open>kfree\<close> has released is recorded as freed;
  the allocator never hands out an address twice, so a freed object stays freed.
\<close>

type_synonym s64 = "64 word"
type_synonym u64 = "64 word"
type_synonym u32 = "32 word"
type_synonym cpumask = "nat set"
type_synonym genpd_ptr = nat
type_synonym cpu_pd_ptr = nat
type_synonym device_node = nat
type_synonym device = nat

datatype error = NullDeref | UseAfterFree

text \<open>
  Modelled from the spec: \<open>struct genpd_power_state\<close> and \<open>struct generic_pm_domain\<close>
  are declared in linux/pm\_domain.h, which is not part of the sources at hand. The
  fields are the ones the code reads and writes. The idle-state table is an ordered
  sequence, index 0 the shallowest state, and \<open>state_count\<close> is its length: the list
  holds the entries of the array \<open>states[]\<close> that have been filled in, and the entries
  of the array behind them are zero, as \<open>kzalloc\<close> left them.
\<close>

record genpd_power_state =
  power_off_latency_ns :: s64
  power_on_latency_ns :: s64
  residency_ns :: s64
  param :: u32

datatype genpd_callback = No_callback | Cpu_pd_power_off | Cpu_pd_power_on

record generic_pm_domain =
  name :: string
  flags :: u32
  genpd_power_off :: genpd_callback
  genpd_power_on :: genpd_callback
  states :: "genpd_power_state list"
  state_idx :: nat

definition state_count :: "generic_pm_domain \<Rightarrow> nat" where
  "state_count d = length (states d)"

definition zero_state :: genpd_power_state where
  "zero_state =
     \<lparr>power_off_latency_ns = 0, power_on_latency_ns = 0, residency_ns = 0, param = 0\<rparr>"

text \<open>\<open>genpd->states[i]\<close>, read without a bound check.\<close>

definition state_at :: "generic_pm_domain \<Rightarrow> nat \<Rightarrow> genpd_power_state" where
  "state_at d i = (if i < length (states d) then states d ! i else zero_state)"

text \<open>\<open>struct cpu_pd_ops\<close>: two optional platform callbacks.\<close>

record cpu_pd_ops =
  power_off :: "(nat \<Rightarrow> u32 \<Rightarrow> cpumask \<Rightarrow> int) option"
  power_on :: "(unit \<Rightarrow> int) option"

text \<open>\<open>struct cpu_pm_domain\<close>; the list link is the position in \<open>of_cpu_pd_list\<close>.\<close>

record cpu_pm_domain =
  ops :: cpu_pd_ops
  genpd :: "genpd_ptr option"
  parent :: "cpu_pd_ptr option"
  cpus :: cpumask

text \<open>
  The mutable state: the two heaps, the registry list \<open>of_cpu_pd_list\<close> (newest entry
  first, as \<open>list_add_rcu\<close> inserts at the head), the next free addresses of the
  allocator, the objects released by \<open>kfree\<close>, and the table of advertised domain
  providers.
\<close>

record state =
  genpds :: "genpd_ptr \<Rightarrow> generic_pm_domain"
  cpu_pds :: "cpu_pd_ptr \<Rightarrow> cpu_pm_domain"
  of_cpu_pd_list :: "cpu_pd_ptr list"
  next_genpd :: genpd_ptr
  next_cpu_pd :: cpu_pd_ptr
  freed_genpds :: "genpd_ptr set"
  freed_cpu_pds :: "cpu_pd_ptr set"
  providers :: "device_node \<Rightarrow> genpd_ptr option"

text \<open>
  The collaborators outside the file, as the values they return: the PM QoS request for
  \<open>PM_QOS_CPU_DMA_LATENCY\<close> (an \<open>int\<close>, in microseconds), the online mask, the number
  of CPU ids a mask is scanned for, the next wakeup of each CPU and the current time
  (both \<open>ktime_t\<close>, nanoseconds in an \<open>s64\<close>).
\<close>

record env =
  pm_qos_request :: "32 word"
  cpu_online_mask :: cpumask
  nr_cpu_ids :: nat
  tick_nohz_get_next_wakeup :: "nat \<Rightarrow> s64"
  ktime_get :: s64

section \<open>Registry lookup\<close>

text \<open>
  \<open>to_cpu_pd\<close>: the first entry of the list whose \<open>genpd\<close> field is the given
  domain, \<open>NULL\<close> when there is none. The walk reads each entry from the head of the list
  up to the match; when one of them has been freed, what it reads (the \<open>genpd\<close> field
  and the link to the next entry) is no longer the entry's, and the lookup has no
  result: \<open>UseAfterFree\<close>.
\<close>

fun list_lookup :: "cpu_pd_ptr set \<Rightarrow> (cpu_pd_ptr \<Rightarrow> cpu_pm_domain) \<Rightarrow> genpd_ptr
    \<Rightarrow> cpu_pd_ptr list \<Rightarrow> error + cpu_pd_ptr option" where
  "list_lookup F h d [] = Inr None"
| "list_lookup F h d (pd # rest) =
     (if pd \<in> F then Inl UseAfterFree
      else if genpd (h pd) = Some d then Inr (Some pd)
      else list_lookup F h d rest)"

definition to_cpu_pd :: "state \<Rightarrow> genpd_ptr \<Rightarrow> error + cpu_pd_ptr option" where
  "to_cpu_pd s d = list_lookup (freed_cpu_pds s) (cpu_pds s) d (of_cpu_pd_list s)"

section \<open>The power-down governor\<close>

text \<open>
  Modelled from the spec: \<open>NSEC_PER_USEC\<close>, \<open>KTIME_MAX\<close>, \<open>KTIME_SEC_MAX\<close> and
  \<open>ktime_set\<close> come from linux/time64.h and linux/ktime.h, which are not part of the
  sources at hand. \<open>NSEC_PER_USEC\<close> is the \<open>long\<close> 1000, \<open>KTIME_MAX\<close> the largest
  \<open>s64\<close>, and \<open>ktime_set\<close> saturates at \<open>KTIME_MAX\<close> from \<open>KTIME_SEC_MAX\<close> seconds on.
\<close>

definition NSEC_PER_USEC :: int where
  "NSEC_PER_USEC = 1000"

definition NSEC_PER_SEC :: int where
  "NSEC_PER_SEC = 1000000000"

definition KTIME_MAX :: s64 where
  "KTIME_MAX = 0x7FFFFFFFFFFFFFFF"

definition KTIME_SEC_MAX :: int where
  "KTIME_SEC_MAX = sint KTIME_MAX div NSEC_PER_SEC"

definition ktime_set :: "int \<Rightarrow> int \<Rightarrow> s64" where
  "ktime_set secs nsecs =
     (if secs \<ge> KTIME_SEC_MAX then KTIME_MAX else word_of_int (secs * NSEC_PER_SEC + nsecs))"

text \<open>
  The loop \<open>for_each_cpu_and(cpu, cpu_pd->cpus, cpu_online_mask)\<close>: the CPUs below
  \<open>nr_cpu_ids\<close> set in both masks, in increasing order; the comparison of the two
  \<open>tv64\<close> fields is signed.
\<close>

definition for_each_cpu_and :: "nat \<Rightarrow> cpumask \<Rightarrow> cpumask \<Rightarrow> nat list" where
  "for_each_cpu_and n m1 m2 = filter (\<lambda>cpu. cpu \<in> m1 \<and> cpu \<in> m2) [0..<n]"

fun earliest_loop :: "(nat \<Rightarrow> s64) \<Rightarrow> nat list \<Rightarrow> s64 \<Rightarrow> s64" where
  "earliest_loop nw [] earliest = earliest"
| "earliest_loop nw (cpu # rest) earliest =
     (let next_wakeup = nw cpu
      in earliest_loop nw rest (if next_wakeup <s earliest then next_wakeup else earliest))"

definition earliest_wakeup :: "env \<Rightarrow> cpumask \<Rightarrow> s64" where
  "earliest_wakeup E msk =
     earliest_loop (tick_nohz_get_next_wakeup E)
       (for_each_cpu_and (nr_cpu_ids E) msk (cpu_online_mask E))
       (ktime_set KTIME_SEC_MAX 0)"

text \<open>
  \<open>sleep_ns = ktime_to_ns(ktime_sub(earliest, ktime_get()))\<close>: a 64-bit subtraction
  whose result is stored in a \<open>u64\<close>.
\<close>

definition sleep_ns_of :: "env \<Rightarrow> cpumask \<Rightarrow> u64" where
  "sleep_ns_of E msk = earliest_wakeup E msk - ktime_get E"

text \<open>The sum of the three latencies of a state, stored in a \<open>u64\<close>.\<close>

definition state_sleep_ns :: "genpd_power_state \<Rightarrow> u64" where
  "state_sleep_ns st = power_off_latency_ns st + power_on_latency_ns st + residency_ns st"

text \<open>
  \<open>qos_ns * NSEC_PER_USEC\<close>: an \<open>int\<close> times a \<open>long\<close>, computed in \<open>long\<close> and converted
  to \<open>u64\<close> for the comparison with \<open>state_sleep_ns\<close>.
\<close>

definition qos_limit :: "32 word \<Rightarrow> u64" where
  "qos_limit qos_ns = word_of_int (sint qos_ns * NSEC_PER_USEC)"

text \<open>
  The scan \<open>for (i = state_count - 1; i >= 0; i--)\<close>. The result is the value of \<open>i\<close>
  when the loop is left: the index at which \<open>break\<close> was taken, or \<open>-1\<close>.
\<close>

function state_scan :: "genpd_power_state list \<Rightarrow> u64 \<Rightarrow> u64 \<Rightarrow> int \<Rightarrow> int" where
  "state_scan sts sleep_ns limit i =
     (if i \<ge> 0 then
        (if state_sleep_ns (sts ! nat i) > sleep_ns then state_scan sts sleep_ns limit (i - 1)
         else if state_sleep_ns (sts ! nat i) < limit then i
         else state_scan sts sleep_ns limit (i - 1))
      else i)"
  by pat_completeness auto
termination
  by (relation "measure (\<lambda>(sts, sleep_ns, limit, i). nat (i + 1))") auto

definition set_state_idx :: "genpd_ptr \<Rightarrow> nat \<Rightarrow> state \<Rightarrow> state" where
  "set_state_idx g i s = s\<lparr>genpds := (genpds s)(g := (genpds s g)\<lparr>state_idx := i\<rparr>)\<rparr>"

text \<open>
  \<open>cpu_pd_down_ok\<close>. The argument is the domain (\<open>pd_to_genpd\<close> only recovers the
  enclosing object). The result is the returned flag and the state after the call.
  The lookup result is first used after the QoS test, by \<open>cpu_pd->cpus\<close>: there a
  \<open>NULL\<close> result, or a lookup that has read a freed entry, is the error.
\<close>

definition cpu_pd_down_ok :: "env \<Rightarrow> genpd_ptr \<Rightarrow> state \<Rightarrow> error + (bool \<times> state)" where
  "cpu_pd_down_ok E g s0 =
     (let cpu_pd = to_cpu_pd s0 g;
          qos_ns = pm_qos_request E;
          s1 = set_state_idx g 0 s0
      in if qos_ns = 0 then Inr (False, s1)
         else (case cpu_pd of
                 Inl e \<Rightarrow> Inl e
               | Inr None \<Rightarrow> Inl NullDeref
               | Inr (Some p) \<Rightarrow>
                   (let sleep_ns = sleep_ns_of E (cpus (cpu_pds s1 p))
                    in if sleep_ns \<le> 0 then Inr (False, s1)
                       else (let i = state_scan (states (genpds s1 g)) sleep_ns (qos_limit qos_ns)
                                       (int (state_count (genpds s1 g)) - 1)
                             in if i \<ge> 0 then Inr (True, set_state_idx g (nat i) s1)
                                else Inr (False, s1)))))"

text \<open>
  What a caller observes of one evaluation: the returned flag and the selected-state
  index of the domain after the call (\<open>None\<close> when the call does not return).
\<close>

definition down_ok_outcome :: "env \<Rightarrow> genpd_ptr \<Rightarrow> state \<Rightarrow> (bool \<times> nat) option" where
  "down_ok_outcome E g s =
     (case cpu_pd_down_ok E g s of
        Inl e \<Rightarrow> None
      | Inr r \<Rightarrow> Some (fst r, state_idx (genpds (snd r) g)))"

text \<open>
  The test of one loop iteration that leaves the loop through \<open>break\<close>: the state is not
  skipped by \<open>continue\<close> and its cost is below the QoS limit.
\<close>

definition accepts :: "genpd_power_state list \<Rightarrow> u64 \<Rightarrow> u64 \<Rightarrow> nat \<Rightarrow> bool" where
  "accepts sts sleep_ns limit i \<longleftrightarrow>
     \<not> state_sleep_ns (sts ! i) > sleep_ns \<and> state_sleep_ns (sts ! i) < limit"

section \<open>Attaching a CPU\<close>

text \<open>
  Modelled from the spec: the error codes are the kernel's errno values, declared
  outside the sources at hand: \<open>ENOENT\<close> (no registry entry, 2), \<open>ENOMEM\<close> (out of
  memory, 12) and \<open>ENODEV\<close> (no device or node, or node disabled, 19).
\<close>

definition ENOENT :: int where "ENOENT = 2"
definition ENOMEM :: int where "ENOMEM = 12"
definition ENODEV :: int where "ENODEV = 19"

text \<open>
  The collaborators of the set-up path, as the values they return: the driver core
  (\<open>get_cpu_device\<close>, \<open>genpd_dev_pm_attach\<close>), the device tree (\<open>of_get_cpu_node\<close>,
  \<open>of_parse_phandle\<close> and \<open>of_parse_phandle_with_args\<close> for the property
  "power-domains", \<open>of_device_is_available\<close>, the node's \<open>full_name\<close>), the allocator
  (whether each of the four allocations made for a node succeeds), the generic
  power-domain framework (\<open>of_pm_genpd_init\<close>, \<open>of_genpd_add_provider_simple\<close>,
  \<open>pm_genpd_add_subdomain\<close>, the flag bit \<open>GENPD_FLAG_IRQ_SAFE\<close>), and the mask of
  possible CPUs with the number of bits \<open>for_each_possible_cpu\<close> scans.
\<close>

record of_env =
  get_cpu_device :: "nat \<Rightarrow> device option"
  genpd_dev_pm_attach :: "device \<Rightarrow> int"
  of_get_cpu_node :: "nat \<Rightarrow> device_node option"
  of_parse_phandle :: "device_node \<Rightarrow> device_node option"
  of_parse_phandle_with_args :: "device_node \<Rightarrow> device_node option"
  of_device_is_available :: "device_node \<Rightarrow> bool"
  full_name :: "device_node \<Rightarrow> string"
  kzalloc_genpd_ok :: "device_node \<Rightarrow> bool"
  kstrndup_ok :: "device_node \<Rightarrow> bool"
  kzalloc_pd_ok :: "device_node \<Rightarrow> bool"
  zalloc_cpumask_var_ok :: "device_node \<Rightarrow> bool"
  of_pm_genpd_init :: "device_node \<Rightarrow> int"
  of_genpd_add_provider_simple :: "device_node \<Rightarrow> int"
  pm_genpd_add_subdomain :: "genpd_ptr \<Rightarrow> genpd_ptr \<Rightarrow> int"
  GENPD_FLAG_IRQ_SAFE :: u32
  cpu_possible_mask :: cpumask
  nr_cpumask_bits :: nat

text \<open>\<open>for_each_possible_cpu\<close>: the possible CPUs in increasing order.\<close>

definition for_each_possible_cpu :: "of_env \<Rightarrow> nat list" where
  "for_each_possible_cpu P = filter (\<lambda>cpu. cpu \<in> cpu_possible_mask P) [0..<nr_cpumask_bits P]"

text \<open>\<open>cpumask_set_cpu(cpu, cpu_pd->cpus)\<close> on the registry entry at address \<open>p\<close>.\<close>

definition cpumask_set_cpu :: "nat \<Rightarrow> cpu_pd_ptr \<Rightarrow> state \<Rightarrow> state" where
  "cpumask_set_cpu cpu p s =
     s\<lparr>cpu_pds := (cpu_pds s)(p := (cpu_pds s p)\<lparr>cpus := insert cpu (cpus (cpu_pds s p))\<rparr>)\<rparr>"

text \<open>
  The loop \<open>while (!ret && cpu_pd) { cpumask_set_cpu(cpu, cpu_pd->cpus); cpu_pd =
  cpu_pd->parent; }\<close>. It does not return on a cyclic parent chain: the result is then
  \<open>None\<close>.
\<close>

partial_function (option) attach_loop ::
    "int \<Rightarrow> nat \<Rightarrow> cpu_pd_ptr option \<Rightarrow> state \<Rightarrow> state option" where
  "attach_loop ret cpu cpu_pd s =
     (if ret = 0 then
        (case cpu_pd of
           None \<Rightarrow> Some s
         | Some p \<Rightarrow> attach_loop ret cpu (parent (cpu_pds s p)) (cpumask_set_cpu cpu p s))
      else Some s)"

declare attach_loop.simps [code]

text \<open>\<open>cpu_pd_attach_cpu\<close>: the returned code and the state after the call.\<close>

definition cpu_pd_attach_cpu ::
    "of_env \<Rightarrow> cpu_pd_ptr option \<Rightarrow> nat \<Rightarrow> state \<Rightarrow> (int \<times> state) option" where
  "cpu_pd_attach_cpu P cpu_pd cpu s =
     (case get_cpu_device P cpu of
        None \<Rightarrow> Some (- ENODEV, s)
      | Some cpu_dev \<Rightarrow>
          (let ret = genpd_dev_pm_attach P cpu_dev
           in map_option (Pair ret) (attach_loop ret cpu cpu_pd s)))"

text \<open>
  The leaf and its ancestors, in the order the loop visits them: the list exists
  exactly when the parent chain ends in \<open>NULL\<close>.
\<close>

inductive parent_chain ::
    "(cpu_pd_ptr \<Rightarrow> cpu_pm_domain) \<Rightarrow> cpu_pd_ptr option \<Rightarrow> cpu_pd_ptr list \<Rightarrow> bool" where
  chain_end: "parent_chain h None []"
| chain_step: "parent_chain h (parent (h p)) ps \<Longrightarrow> parent_chain h (Some p) (p # ps)"

text \<open>The effect of the loop in closed form: the CPU is added to the mask of each entry.\<close>

definition add_cpu_to :: "nat \<Rightarrow> cpu_pd_ptr set \<Rightarrow> state \<Rightarrow> state" where
  "add_cpu_to cpu A s =
     s\<lparr>cpu_pds := (\<lambda>q. if q \<in> A then (cpu_pds s q)\<lparr>cpus := insert cpu (cpus (cpu_pds s q))\<rparr>
                         else cpu_pds s q)\<rparr>"

section \<open>Power transitions\<close>

text \<open>
  \<open>cpu_pd_power_on\<close> and \<open>cpu_pd_power_off\<close> read the registry entry of the domain
  without testing the lookup result; the platform callback, when there is one, decides
  the returned code. \<open>cpu_pd_power_off\<close> passes the selected index, the parameter of
  that state, read from the array without a bound check, and the member CPUs of the
  entry.
\<close>

definition cpu_pd_power_on :: "state \<Rightarrow> genpd_ptr \<Rightarrow> error + int" where
  "cpu_pd_power_on s g =
     (case to_cpu_pd s g of
        Inl e \<Rightarrow> Inl e
      | Inr None \<Rightarrow> Inl NullDeref
      | Inr (Some pd) \<Rightarrow>
          (case power_on (ops (cpu_pds s pd)) of
             None \<Rightarrow> Inr 0
           | Some f \<Rightarrow> Inr (f ())))"

definition cpu_pd_power_off :: "state \<Rightarrow> genpd_ptr \<Rightarrow> error + int" where
  "cpu_pd_power_off s g =
     (case to_cpu_pd s g of
        Inl e \<Rightarrow> Inl e
      | Inr None \<Rightarrow> Inl NullDeref
      | Inr (Some pd) \<Rightarrow>
          (case power_off (ops (cpu_pds s pd)) of
             None \<Rightarrow> Inr 0
           | Some f \<Rightarrow>
               Inr (f (state_idx (genpds s g))
                      (param (state_at (genpds s g) (state_idx (genpds s g))))
                      (cpus (cpu_pds s pd)))))"

section \<open>Building the hierarchy\<close>

type_synonym 'a result = "error + ('a \<times> state)"

definition CPU_PD_NAME_MAX :: nat where
  "CPU_PD_NAME_MAX = 36"

text \<open>An object as \<open>kzalloc\<close> returns it: every field zero.\<close>

definition zero_genpd :: generic_pm_domain where
  "zero_genpd = \<lparr>name = [], flags = 0, genpd_power_off = No_callback,
     genpd_power_on = No_callback, states = [], state_idx = 0\<rparr>"

definition zero_cpu_pd :: cpu_pm_domain where
  "zero_cpu_pd = \<lparr>ops = \<lparr>power_off = None, power_on = None\<rparr>, genpd = None,
     parent = None, cpus = {}\<rparr>"

text \<open>\<open>kfree\<close> of a domain and of a registry entry: the object is recorded as freed.\<close>

definition kfree_genpd :: "genpd_ptr \<Rightarrow> state \<Rightarrow> state" where
  "kfree_genpd g s = s\<lparr>freed_genpds := insert g (freed_genpds s)\<rparr>"

definition kfree_pd :: "cpu_pd_ptr \<Rightarrow> state \<Rightarrow> state" where
  "kfree_pd pd s = s\<lparr>freed_cpu_pds := insert pd (freed_cpu_pds s)\<rparr>"

text \<open>
  \<open>of_init_cpu_pm_domain\<close>. The result is \<open>ERR_PTR(code)\<close> (\<open>Inl code\<close>) or the new domain.
  The failure path frees what has been allocated. It does not take the entry off the
  list: when \<open>of_pm_genpd_init\<close> fails, after \<open>list_add_rcu\<close>, the freed entry stays at the
  head of \<open>of_cpu_pd_list\<close>. When the first allocation fails, the failure path reads
  \<open>genpd->name\<close> through the \<open>NULL\<close> pointer.
\<close>

definition of_init_cpu_pm_domain ::
    "of_env \<Rightarrow> device_node \<Rightarrow> cpu_pd_ops \<Rightarrow> state \<Rightarrow> (int + genpd_ptr) result" where
  "of_init_cpu_pm_domain P dn ops' s =
     (if \<not> of_device_is_available P dn then Inr (Inl (- ENODEV), s)
      else if \<not> kzalloc_genpd_ok P dn then Inl NullDeref
      else
        (let g = next_genpd s;
             s1 = s\<lparr>next_genpd := Suc g, genpds := (genpds s)(g := zero_genpd)\<rparr>
         in if \<not> kstrndup_ok P dn then Inr (Inl (- ENOMEM), kfree_genpd g s1)
            else
              (let s2 = s1\<lparr>genpds := (genpds s1)
                         (g := (genpds s1 g)\<lparr>name := take CPU_PD_NAME_MAX (full_name P dn)\<rparr>)\<rparr>
               in if \<not> kzalloc_pd_ok P dn then Inr (Inl (- ENOMEM), kfree_genpd g s2)
                  else
                    (let pd = next_cpu_pd s2;
                         s3 = s2\<lparr>next_cpu_pd := Suc pd,
                                 cpu_pds := (cpu_pds s2)(pd := zero_cpu_pd)\<rparr>
                     in if \<not> zalloc_cpumask_var_ok P dn
                        then Inr (Inl (- ENOMEM), kfree_pd pd (kfree_genpd g s3))
                        else
                          (let s4 = s3\<lparr>cpu_pds := (cpu_pds s3)
                                       (pd := (cpu_pds s3 pd)\<lparr>genpd := Some g, ops := ops'\<rparr>),
                                     genpds := (genpds s3)
                                       (g := (genpds s3 g)
                                          \<lparr>genpd_power_off := Cpu_pd_power_off,
                                           genpd_power_on := Cpu_pd_power_on,
                                           flags := flags (genpds s3 g) OR GENPD_FLAG_IRQ_SAFE P\<rparr>),
                                     of_cpu_pd_list := pd # of_cpu_pd_list s3\<rparr>;
                               ret = of_pm_genpd_init P dn
                           in if ret \<noteq> 0 then Inr (Inl ret, kfree_pd pd (kfree_genpd g s4))
                              else
                                (let ret = of_genpd_add_provider_simple P dn;
                                     s5 = (if ret = 0
                                           then s4\<lparr>providers := (providers s4)(dn := Some g)\<rparr>
                                           else s4)
                                 in Inr (Inr g, s5)))))))"

text \<open>
  \<open>of_get_cpu_domain\<close>: the domain a provider already advertises for the node, or a new
  one, linked to its parent when the node names one. The recursion follows the
  "power-domains" references of the device tree and need not end: the result is then
  \<open>None\<close>. A registry lookup that has read a freed entry is the error \<open>UseAfterFree\<close>.
\<close>

partial_function (option) of_get_cpu_domain ::
    "of_env \<Rightarrow> device_node \<Rightarrow> cpu_pd_ops \<Rightarrow> nat \<Rightarrow> state
      \<Rightarrow> (int + genpd_ptr) result option" where
  "of_get_cpu_domain P dn ops' cpu s =
     (case providers s dn of
        Some gpd \<Rightarrow> Some (Inr (Inr gpd, s))
      | None \<Rightarrow>
          (case of_init_cpu_pm_domain P dn ops' s of
             Inl e \<Rightarrow> Some (Inl e)
           | Inr (Inl err, s1) \<Rightarrow> Some (Inr (Inl err, s1))
           | Inr (Inr gpd, s1) \<Rightarrow>
               (case of_parse_phandle_with_args P dn of
                  None \<Rightarrow> Some (Inr (Inr gpd, s1))
                | Some np \<Rightarrow>
                    Option.bind (of_get_cpu_domain P np ops' cpu s1)
                      (\<lambda>r. case r of
                          Inl e \<Rightarrow> Some (Inl e)
                        | Inr (Inl err, s2) \<Rightarrow> Some (Inr (Inr gpd, s2))
                        | Inr (Inr parent_genpd, s2) \<Rightarrow>
                            (let ret = pm_genpd_add_subdomain P gpd parent_genpd
                             in if ret \<noteq> 0 then Some (Inr (Inl ret, s2))
                                else
                                  (case to_cpu_pd s2 gpd of
                                     Inl e \<Rightarrow> Some (Inl e)
                                   | Inr cpu_pd \<Rightarrow>
                                       (case to_cpu_pd s2 parent_genpd of
                                          Inl e \<Rightarrow> Some (Inl e)
                                        | Inr parent_cpu_pd \<Rightarrow>
                                            (case (cpu_pd, parent_cpu_pd) of
                                               (Some c, Some pc) \<Rightarrow>
                                                 Some (Inr (Inr gpd,
                                                   s2\<lparr>cpu_pds := (cpu_pds s2)
                                                      (c := (cpu_pds s2 c)
                                                         \<lparr>parent := Some pc\<rparr>)\<rparr>))
                                             | _ \<Rightarrow> Some (Inr (Inr gpd, s2))))))))))"

declare of_get_cpu_domain.simps [code]

text \<open>\<open>of_setup_cpu_pd_single\<close>: the returned code and the state after the call.\<close>

definition of_setup_cpu_pd_single ::
    "of_env \<Rightarrow> nat \<Rightarrow> cpu_pd_ops \<Rightarrow> state \<Rightarrow> int result option" where
  "of_setup_cpu_pd_single P cpu ops' s =
     (case of_get_cpu_node P cpu of
        None \<Rightarrow> Some (Inr (- ENODEV, s))
      | Some cpu_dn \<Rightarrow>
          (case of_parse_phandle P cpu_dn of
             None \<Rightarrow> Some (Inr (- ENODEV, s))
           | Some dn \<Rightarrow>
               Option.bind (of_get_cpu_domain P dn ops' cpu s)
                 (\<lambda>r. case r of
                     Inl e \<Rightarrow> Some (Inl e)
                   | Inr (Inl err, s1) \<Rightarrow> Some (Inr (err, s1))
                   | Inr (Inr gpd, s1) \<Rightarrow>
                       (case to_cpu_pd s1 gpd of
                          Inl e \<Rightarrow> Some (Inl e)
                        | Inr None \<Rightarrow> Some (Inr (- ENOENT, s1))
                        | Inr (Some cpu_pd) \<Rightarrow>
                            map_option Inr (cpu_pd_attach_cpu P (Some cpu_pd) cpu s1)))))"

text \<open>
  \<open>of_setup_cpu_pd\<close>: the loop over the possible CPUs, left at the first non-zero code.
  \<open>ret\<close> is not initialised in the code; its initial value is the argument \<open>ret\<close>, which
  is returned only when there is no possible CPU.
\<close>

fun setup_loop :: "of_env \<Rightarrow> cpu_pd_ops \<Rightarrow> nat list \<Rightarrow> int \<Rightarrow> state \<Rightarrow> int result option" where
  "setup_loop P ops' [] ret s = Some (Inr (ret, s))"
| "setup_loop P ops' (cpu # rest) ret s =
     Option.bind (of_setup_cpu_pd_single P cpu ops' s)
       (\<lambda>r. case r of
           Inl e \<Rightarrow> Some (Inl e)
         | Inr (ret', s') \<Rightarrow>
             (if ret' \<noteq> 0 then Some (Inr (ret', s')) else setup_loop P ops' rest ret' s'))"

definition of_setup_cpu_pd :: "of_env \<Rightarrow> cpu_pd_ops \<Rightarrow> int \<Rightarrow> state \<Rightarrow> int result option" where
  "of_setup_cpu_pd P ops' ret s = setup_loop P ops' (for_each_possible_cpu P) ret s"

section \<open>The registry over time\<close>

text \<open>
  A domain is registered when some entry of the registry list refers to it; the list is
  intact when none of its entries has been freed.
\<close>

definition registered :: "state \<Rightarrow> genpd_ptr \<Rightarrow> bool" where
  "registered s g \<longleftrightarrow> (\<exists>p \<in> set (of_cpu_pd_list s). genpd (cpu_pds s p) = Some g)"

definition list_intact :: "state \<Rightarrow> bool" where
  "list_intact s \<longleftrightarrow> set (of_cpu_pd_list s) \<inter> freed_cpu_pds s = {}"

text \<open>
  From one state to a later one the registry only grows: the allocator moves forward,
  the entries of the list stay on it and the entries added to it are newly allocated,
  and an entry allocated before keeps its \<open>genpd\<close> field and every CPU of its member set.
\<close>

definition grows :: "state \<Rightarrow> state \<Rightarrow> bool" where
  "grows s s' \<longleftrightarrow>
     next_cpu_pd s \<le> next_cpu_pd s' \<and>
     set (of_cpu_pd_list s) \<subseteq> set (of_cpu_pd_list s') \<and>
     (\<forall>p \<in> set (of_cpu_pd_list s'). p \<in> set (of_cpu_pd_list s) \<or>
        (next_cpu_pd s \<le> p \<and> p < next_cpu_pd s')) \<and>
     (\<forall>p. p < next_cpu_pd s \<longrightarrow> genpd (cpu_pds s' p) = genpd (cpu_pds s p)) \<and>
     (\<forall>p. p < next_cpu_pd s \<longrightarrow> cpus (cpu_pds s p) \<subseteq> cpus (cpu_pds s' p))"

section \<open>Example inputs\<close>

text \<open>
  The idle-state table of the specification's examples, total costs 10, 30 and 100
  microseconds at indices 0, 1 and 2, in nanoseconds as the table stores them; a state
  with one registered domain (domain 0, registry entry 0) and an environment whose
  CPUs all report the same next wakeup.
\<close>

definition idle_state :: "u64 \<Rightarrow> genpd_power_state" where
  "idle_state c =
     \<lparr>power_off_latency_ns = 0, power_on_latency_ns = 0, residency_ns = c, param = 0\<rparr>"

definition spec_table :: "genpd_power_state list" where
  "spec_table = [idle_state 10000, idle_state 30000, idle_state 100000]"

definition one_domain :: "genpd_power_state list \<Rightarrow> cpumask \<Rightarrow> state" where
  "one_domain sts m =
     \<lparr>genpds = (\<lambda>a. \<lparr>name = [], flags = 0, genpd_power_off = Cpu_pd_power_off,
                      genpd_power_on = Cpu_pd_power_on, states = sts, state_idx = 1\<rparr>),
      cpu_pds = (\<lambda>a. \<lparr>ops = \<lparr>power_off = None, power_on = None\<rparr>, genpd = Some 0,
                       parent = None, cpus = m\<rparr>),
      of_cpu_pd_list = [0], next_genpd = 1, next_cpu_pd = 1,
      freed_genpds = {}, freed_cpu_pds = {}, providers = (\<lambda>n. None)\<rparr>"

definition one_env :: "32 word \<Rightarrow> cpumask \<Rightarrow> s64 \<Rightarrow> s64 \<Rightarrow> env" where
  "one_env q online wake now =
     \<lparr>pm_qos_request = q, cpu_online_mask = online, nr_cpu_ids = 4,
      tick_nohz_get_next_wakeup = (\<lambda>cpu. wake), ktime_get = now\<rparr>"

text \<open>
  The specification's hierarchy L, M, Root as registry entries 0, 1 and 2 (each the
  parent of the one before), with empty member sets, and an environment in which every
  CPU has a device and the generic attach step returns the given code.
\<close>

definition chain_state :: state where
  "chain_state =
     \<lparr>genpds = (\<lambda>a. \<lparr>name = [], flags = 0, genpd_power_off = Cpu_pd_power_off,
                      genpd_power_on = Cpu_pd_power_on, states = [], state_idx = 0\<rparr>),
      cpu_pds = (\<lambda>a. \<lparr>ops = \<lparr>power_off = None, power_on = None\<rparr>, genpd = Some a,
                       parent = (if a < 2 then Some (Suc a) else None), cpus = {}\<rparr>),
      of_cpu_pd_list = [2, 1, 0], next_genpd = 3, next_cpu_pd = 3,
      freed_genpds = {}, freed_cpu_pds = {}, providers = (\<lambda>n. None)\<rparr>"

definition attach_env :: "int \<Rightarrow> of_env" where
  "attach_env r =
     \<lparr>get_cpu_device = (\<lambda>cpu. Some cpu), genpd_dev_pm_attach = (\<lambda>dev. r),
      of_get_cpu_node = (\<lambda>cpu. None), of_parse_phandle = (\<lambda>dn. None),
      of_parse_phandle_with_args = (\<lambda>dn. None), of_device_is_available = (\<lambda>dn. True),
      full_name = (\<lambda>dn. []), kzalloc_genpd_ok = (\<lambda>dn. True), kstrndup_ok = (\<lambda>dn. True),
      kzalloc_pd_ok = (\<lambda>dn. True), zalloc_cpumask_var_ok = (\<lambda>dn. True),
      of_pm_genpd_init = (\<lambda>dn. 0), of_genpd_add_provider_simple = (\<lambda>dn. 0),
      pm_genpd_add_subdomain = (\<lambda>g p. 0), GENPD_FLAG_IRQ_SAFE = 2,
      cpu_possible_mask = {0, 1, 2, 3}, nr_cpumask_bits = 4\<rparr>"

text \<open>
  An empty registry, and a device tree for \<open>n\<close> possible CPUs in which one CPU has no
  node while the node of every other CPU refers to the domain node 20, whose parent
  chain is 20, 21, 22, and \<open>of_pm_genpd_init\<close> returns the given code for each node.
\<close>

definition empty_state :: state where
  "empty_state = \<lparr>genpds = (\<lambda>a. zero_genpd), cpu_pds = (\<lambda>a. zero_cpu_pd), of_cpu_pd_list = [],
     next_genpd = 0, next_cpu_pd = 0, freed_genpds = {}, freed_cpu_pds = {},
     providers = (\<lambda>n. None)\<rparr>"

definition no_ops :: cpu_pd_ops where
  "no_ops = \<lparr>power_off = None, power_on = None\<rparr>"

definition dt_env :: "nat \<Rightarrow> nat \<Rightarrow> (device_node \<Rightarrow> int) \<Rightarrow> of_env" where
  "dt_env missing n init_code =
     \<lparr>get_cpu_device = (\<lambda>cpu. Some cpu), genpd_dev_pm_attach = (\<lambda>dev. 0),
      of_get_cpu_node = (\<lambda>cpu. if cpu = missing then None else Some (10 + cpu)),
      of_parse_phandle = (\<lambda>dn. if 10 \<le> dn \<and> dn < 20 then Some 20 else None),
      of_parse_phandle_with_args =
        (\<lambda>dn. if dn = 20 then Some 21 else if dn = 21 then Some 22 else None),
      of_device_is_available = (\<lambda>dn. True),
      full_name = (\<lambda>dn. ''/cpus/domain''), kzalloc_genpd_ok = (\<lambda>dn. True),
      kstrndup_ok = (\<lambda>dn. True), kzalloc_pd_ok = (\<lambda>dn. True),
      zalloc_cpumask_var_ok = (\<lambda>dn. True), of_pm_genpd_init = init_code,
      of_genpd_add_provider_simple = (\<lambda>dn. 0), pm_genpd_add_subdomain = (\<lambda>g p. 0),
      GENPD_FLAG_IRQ_SAFE = 2, cpu_possible_mask = {..<n}, nr_cpumask_bits = n\<rparr>"

text \<open>
  What a caller observes of a set-up call: the returned code, and the member CPUs of a
  registry entry in the state the call leaves (of the entry as allocated, when the call
  does not return).
\<close>

definition setup_code :: "int result option \<Rightarrow> int option" where
  "setup_code r = (case r of Some (Inr x) \<Rightarrow> Some (fst x) | _ \<Rightarrow> None)"

definition setup_members :: "int result option \<Rightarrow> cpu_pd_ptr \<Rightarrow> cpumask" where
  "setup_members r p = (case r of Some (Inr x) \<Rightarrow> cpus (cpu_pds (snd x) p) | _ \<Rightarrow> {})"

lemmas example_defs =
  idle_state_def spec_table_def one_domain_def one_env_def down_ok_outcome_def
  cpu_pd_down_ok_def to_cpu_pd_def set_state_idx_def sleep_ns_of_def earliest_wakeup_def
  for_each_cpu_and_def ktime_set_def KTIME_MAX_def KTIME_SEC_MAX_def NSEC_PER_SEC_def
  qos_limit_def NSEC_PER_USEC_def state_count_def state_sleep_ns_def accepts_def
  upt_rec word_sless_alt

lemmas dt_defs =
  dt_env_def empty_state_def no_ops_def of_setup_cpu_pd_def of_setup_cpu_pd_single_def
  of_init_cpu_pm_domain_def cpu_pd_attach_cpu_def ENODEV_def ENOENT_def ENOMEM_def to_cpu_pd_def
  zero_genpd_def zero_cpu_pd_def cpumask_set_cpu_def CPU_PD_NAME_MAX_def Let_def
  setup_code_def setup_members_def for_each_possible_cpu_def kfree_genpd_def kfree_pd_def
  upt_rec

section \<open>The state scan\<close>

declare state_scan.simps [simp del]

lemma set_state_idx_twice [simp]:
  "set_state_idx g i (set_state_idx g j s) = set_state_idx g i s"
  by (simp add: set_state_idx_def)

lemma set_state_idx_fields [simp]:
  "cpu_pds (set_state_idx g i s) = cpu_pds s"
  "of_cpu_pd_list (set_state_idx g i s) = of_cpu_pd_list s"
  "freed_cpu_pds (set_state_idx g i s) = freed_cpu_pds s"
  "states (genpds (set_state_idx g i s) d) = states (genpds s d)"
  "state_idx (genpds (set_state_idx g i s) g) = i"
  by (simp_all add: set_state_idx_def)

lemma to_cpu_pd_set_state_idx [simp]:
  "to_cpu_pd (set_state_idx g i s) d = to_cpu_pd s d"
  by (simp add: to_cpu_pd_def)

lemma state_scan_neg: "i < 0 \<Longrightarrow> state_scan sts sl lim i = i"
  by (simp add: state_scan.simps)

lemma state_scan_skip:
  "\<not> accepts sts sl lim (Suc n) \<Longrightarrow>
     state_scan sts sl lim (int (Suc n)) = state_scan sts sl lim (int n)"
proof -
  assume na: "\<not> accepts sts sl lim (Suc n)"
  have "state_scan sts sl lim (int (Suc n)) = state_scan sts sl lim (int (Suc n) - 1)"
    using na by (subst state_scan.simps) (auto simp: accepts_def simp del: of_nat_Suc)
  then show ?thesis by simp
qed

lemma state_scan_break:
  "k \<le> n \<Longrightarrow> accepts sts sl lim k \<Longrightarrow> (\<forall>j. k < j \<and> j \<le> n \<longrightarrow> \<not> accepts sts sl lim j)
     \<Longrightarrow> state_scan sts sl lim (int n) = int k"
proof (induction n)
  case 0
  then show ?case by (simp add: state_scan.simps [of _ _ _ 0] accepts_def)
next
  case (Suc n)
  show ?case
  proof (cases "k = Suc n")
    case True
    with Suc.prems show ?thesis
      by (simp add: state_scan.simps [of _ _ _ "int (Suc n)"] accepts_def del: of_nat_Suc)
  next
    case False
    with Suc.prems have k: "k \<le> n" and na: "\<not> accepts sts sl lim (Suc n)" by auto
    have "state_scan sts sl lim (int n) = int k" using Suc.IH k Suc.prems by auto
    then show ?thesis by (simp only: state_scan_skip [OF na])
  qed
qed

lemma state_scan_none:
  "(\<forall>j. j \<le> n \<longrightarrow> \<not> accepts sts sl lim j) \<Longrightarrow> state_scan sts sl lim (int n) = - 1"
proof (induction n)
  case 0
  then show ?case by (auto simp: state_scan.simps [of _ _ _ 0] state_scan_neg accepts_def)
next
  case (Suc n)
  then have na: "\<not> accepts sts sl lim (Suc n)" by auto
  have "state_scan sts sl lim (int n) = - 1" using Suc by auto
  then show ?case by (simp only: state_scan_skip [OF na])
qed

lemma cpu_pd_down_ok_scan:
  assumes "to_cpu_pd s g = Inr (Some p)" "pm_qos_request E \<noteq> 0"
    "sleep_ns_of E (cpus (cpu_pds s p)) \<noteq> 0"
  shows "cpu_pd_down_ok E g s =
    (let i = state_scan (states (genpds s g)) (sleep_ns_of E (cpus (cpu_pds s p)))
               (qos_limit (pm_qos_request E)) (int (length (states (genpds s g))) - 1)
     in if i \<ge> 0 then Inr (True, set_state_idx g (nat i) s) else Inr (False, set_state_idx g 0 s))"
  using assms by (simp add: cpu_pd_down_ok_def Let_def state_count_def)

lemma down_ok_accept:
  assumes "to_cpu_pd s g = Inr (Some p)" "pm_qos_request E \<noteq> 0"
    "sleep_ns_of E (cpus (cpu_pds s p)) = sl" "sl \<noteq> 0"
    "k < length (states (genpds s g))"
    "accepts (states (genpds s g)) sl (qos_limit (pm_qos_request E)) k"
    "\<forall>j. k < j \<and> j < length (states (genpds s g)) \<longrightarrow>
       \<not> accepts (states (genpds s g)) sl (qos_limit (pm_qos_request E)) j"
  shows "cpu_pd_down_ok E g s = Inr (True, set_state_idx g k s)"
proof -
  obtain n where n: "length (states (genpds s g)) = Suc n"
    using assms(5) by (cases "length (states (genpds s g))") auto
  have "state_scan (states (genpds s g)) sl (qos_limit (pm_qos_request E)) (int n) = int k"
    using assms(5-7) n by (intro state_scan_break) auto
  then show ?thesis
    using assms(1-4) n by (simp add: cpu_pd_down_ok_scan)
qed

lemma down_ok_veto:
  assumes "to_cpu_pd s g = Inr (Some p)"
    "sleep_ns_of E (cpus (cpu_pds s p)) = sl"
    "\<forall>j. j < length (states (genpds s g)) \<longrightarrow>
       \<not> accepts (states (genpds s g)) sl (qos_limit (pm_qos_request E)) j"
  shows "cpu_pd_down_ok E g s = Inr (False, set_state_idx g 0 s)"
proof (cases "pm_qos_request E = 0 \<or> sl = 0")
  case True
  then show ?thesis using assms(1,2) by (auto simp: cpu_pd_down_ok_def Let_def)
next
  case False
  show ?thesis
  proof (cases "length (states (genpds s g))")
    case 0
    then show ?thesis using False assms(1,2) by (simp add: cpu_pd_down_ok_scan state_scan_neg)
  next
    case (Suc n)
    have "state_scan (states (genpds s g)) sl (qos_limit (pm_qos_request E)) (int n) = - 1"
      using assms(3) Suc by (intro state_scan_none) auto
    then show ?thesis using False assms(1,2) Suc by (simp add: cpu_pd_down_ok_scan)
  qed
qed

lemma spec_table_costs: "map state_sleep_ns spec_table = [10000, 30000, 100000]"
  by (simp add: spec_table_def idle_state_def state_sleep_ns_def)

lemma down_ok_outcome_Inr [simp]:
  "cpu_pd_down_ok E g s = Inr (b, set_state_idx g i s') \<Longrightarrow> down_ok_outcome E g s = Some (b, i)"
  by (simp add: down_ok_outcome_def)

section \<open>Depth selection on the example table\<close>

text \<open>
  C1, as the code has it. For every domain whose idle-state table has the total costs
  10, 30 and 100 microseconds at indices 0, 1 and 2, with a latency tolerance of 20
  microseconds and a sleep window of 150 microseconds, \<open>cpu_pd_down_ok\<close> permits
  power-down and selects index 0: the scan from the deepest state passes over the states
  of cost 100 and 30 microseconds, which fit the window but are not below the tolerance,
  and leaves the loop at the first state that fits the window and whose cost is
  strictly below the tolerance.
\<close>

theorem down_ok_table_20_150:
  assumes "to_cpu_pd s g = Inr (Some p)"
    and "map state_sleep_ns (states (genpds s g)) = [10000, 30000, 100000]"
    and "pm_qos_request E = 20"
    and "sleep_ns_of E (cpus (cpu_pds s p)) = 150000"
  shows "cpu_pd_down_ok E g s = Inr (True, set_state_idx g 0 s) \<and>
         down_ok_outcome E g s = Some (True, 0)"
proof -
  obtain a b c where sts: "states (genpds s g) = [a, b, c]"
    and costs: "state_sleep_ns a = 10000" "state_sleep_ns b = 30000" "state_sleep_ns c = 100000"
    using assms(2) by (auto simp: map_eq_Cons_conv)
  have lim: "qos_limit (pm_qos_request E) = 20000"
    by (simp add: assms(3) qos_limit_def NSEC_PER_USEC_def)
  have a0: "accepts (states (genpds s g)) 150000 20000 0"
    by (simp add: accepts_def sts costs)
  have deeper: "\<forall>j. 0 < j \<and> j < length (states (genpds s g)) \<longrightarrow>
      \<not> accepts (states (genpds s g)) 150000 20000 j"
  proof (intro allI impI)
    fix j assume "0 < j \<and> j < length (states (genpds s g))"
    then have "j = 1 \<or> j = 2" using sts by auto
    then show "\<not> accepts (states (genpds s g)) 150000 20000 j"
      by (auto simp: accepts_def sts costs)
  qed
  have "cpu_pd_down_ok E g s = Inr (True, set_state_idx g 0 s)"
    using down_ok_accept [OF assms(1) _ assms(4), of 0] a0 deeper lim assms(3) sts by simp
  then show ?thesis by simp
qed

theorem down_ok_table_20_150_witness:
  "to_cpu_pd (one_domain spec_table {0}) 0 = Inr (Some 0) \<and>
   map state_sleep_ns (states (genpds (one_domain spec_table {0}) 0)) = [10000, 30000, 100000] \<and>
   pm_qos_request (one_env 20 {0} 1150000 1000000) = 20 \<and>
   sleep_ns_of (one_env 20 {0} 1150000 1000000) (cpus (cpu_pds (one_domain spec_table {0}) 0))
     = 150000 \<and>
   down_ok_outcome (one_env 20 {0} 1150000 1000000) 0 (one_domain spec_table {0}) = Some (True, 0)"
proof -
  have h1: "to_cpu_pd (one_domain spec_table {0}) 0 = Inr (Some 0)"
    by (simp add: to_cpu_pd_def one_domain_def)
  have h2: "map state_sleep_ns (states (genpds (one_domain spec_table {0}) 0))
      = [10000, 30000, 100000]"
    by (simp add: one_domain_def spec_table_costs)
  have h3: "pm_qos_request (one_env 20 {0} 1150000 1000000) = 20"
    by (simp add: one_env_def)
  have h4: "sleep_ns_of (one_env 20 {0} 1150000 1000000)
      (cpus (cpu_pds (one_domain spec_table {0}) 0)) = 150000"
    by (simp add: example_defs)
  show ?thesis using down_ok_table_20_150 [OF h1 h2 h3 h4] h1 h2 h3 h4 by simp
qed

text \<open>
  The same input evaluated: the call permits power-down with selected index 0, not 2.
\<close>

theorem down_ok_table_20_150_counterexample:
  "down_ok_outcome (one_env 20 {0} 1150000 1000000) 0 (one_domain spec_table {0})
     = Some (True, 0) \<and>
   down_ok_outcome (one_env 20 {0} 1150000 1000000) 0 (one_domain spec_table {0})
     \<noteq> Some (True, 2)"
  by (simp add: example_defs state_scan.simps)

section \<open>Leaving the scan through break\<close>

text \<open>
  C2, as the code has it. Whenever the scan from the deepest state reaches a candidate
  state whose total cost fits the sleep window and is strictly less than the latency
  tolerance, the scan stops there and that index is accepted: power-down is permitted
  and the selected-state index is the index of that candidate. The scan reaches
  index \<open>k\<close> when no deeper state has left the loop.
\<close>

theorem scan_break_accepts:
  assumes "to_cpu_pd s g = Inr (Some p)"
    and "pm_qos_request E \<noteq> 0"
    and "sleep_ns_of E (cpus (cpu_pds s p)) = sl" and "sl \<noteq> 0"
    and "k < length (states (genpds s g))"
    and "state_sleep_ns (states (genpds s g) ! k) \<le> sl"
    and "state_sleep_ns (states (genpds s g) ! k) < qos_limit (pm_qos_request E)"
    and "\<forall>j. k < j \<and> j < length (states (genpds s g)) \<longrightarrow>
           \<not> accepts (states (genpds s g)) sl (qos_limit (pm_qos_request E)) j"
  shows "cpu_pd_down_ok E g s = Inr (True, set_state_idx g k s) \<and>
         down_ok_outcome E g s = Some (True, k)"
proof -
  have "accepts (states (genpds s g)) sl (qos_limit (pm_qos_request E)) k"
    using assms(6,7) by (simp add: accepts_def not_less)
  then have "cpu_pd_down_ok E g s = Inr (True, set_state_idx g k s)"
    using assms by (intro down_ok_accept) auto
  then show ?thesis by simp
qed

text \<open>
  The two inputs of the claim, through the theorem: tolerance 150 microseconds with a
  window of 150 microseconds selects index 2, and with a window of 50 microseconds
  index 1; both permit power-down.
\<close>

theorem scan_break_accepts_witness:
  "down_ok_outcome (one_env 150 {0} 1150000 1000000) 0 (one_domain spec_table {0})
     = Some (True, 2) \<and>
   down_ok_outcome (one_env 150 {0} 1050000 1000000) 0 (one_domain spec_table {0})
     = Some (True, 1)"
proof -
  have h1: "to_cpu_pd (one_domain spec_table {0}) 0 = Inr (Some 0)"
    by (simp add: to_cpu_pd_def one_domain_def)
  have q: "pm_qos_request (one_env 150 {0} w n) \<noteq> 0" for w n
    by (simp add: one_env_def)
  have lim: "qos_limit (pm_qos_request (one_env 150 {0} w n)) = 150000" for w n
    by (simp add: one_env_def qos_limit_def NSEC_PER_USEC_def)
  have sl1: "sleep_ns_of (one_env 150 {0} 1150000 1000000)
      (cpus (cpu_pds (one_domain spec_table {0}) 0)) = 150000"
    by (simp add: example_defs)
  have sl2: "sleep_ns_of (one_env 150 {0} 1050000 1000000)
      (cpus (cpu_pds (one_domain spec_table {0}) 0)) = 50000"
    by (simp add: example_defs)
  have sts: "states (genpds (one_domain spec_table {0}) 0) = spec_table"
    by (simp add: one_domain_def)
  have len: "length spec_table = 3" by (simp add: spec_table_def)
  have c: "state_sleep_ns (spec_table ! 2) = 100000"
    "state_sleep_ns (spec_table ! Suc 0) = 30000"
    by (simp_all add: spec_table_def idle_state_def state_sleep_ns_def)
  have d1: "\<forall>j. 2 < j \<and> j < length (states (genpds (one_domain spec_table {0}) 0)) \<longrightarrow>
      \<not> accepts (states (genpds (one_domain spec_table {0}) 0)) 150000
          (qos_limit (pm_qos_request (one_env 150 {0} 1150000 1000000))) j"
    by (auto simp: sts len)
  have d2: "\<forall>j. 1 < j \<and> j < length (states (genpds (one_domain spec_table {0}) 0)) \<longrightarrow>
      \<not> accepts (states (genpds (one_domain spec_table {0}) 0)) 50000
          (qos_limit (pm_qos_request (one_env 150 {0} 1050000 1000000))) j"
  proof (intro allI impI)
    fix j assume "1 < j \<and> j < length (states (genpds (one_domain spec_table {0}) 0))"
    then have "j = 2" by (simp add: sts len)
    then show "\<not> accepts (states (genpds (one_domain spec_table {0}) 0)) 50000
          (qos_limit (pm_qos_request (one_env 150 {0} 1050000 1000000))) j"
      by (simp add: accepts_def sts c)
  qed
  have r1: "down_ok_outcome (one_env 150 {0} 1150000 1000000) 0 (one_domain spec_table {0})
      = Some (True, 2)"
    using scan_break_accepts [OF h1 q sl1 _ _ _ _ d1] by (simp add: sts len c lim)
  have r2: "down_ok_outcome (one_env 150 {0} 1050000 1000000) 0 (one_domain spec_table {0})
      = Some (True, 1)"
    using scan_break_accepts [OF h1 q sl2 _ _ _ _ d2] by (simp add: sts len c lim)
  show ?thesis using r1 r2 by simp
qed

text \<open>
  The first input evaluated: the call permits power-down with index 2; it does not veto.
\<close>

theorem scan_break_accepts_counterexample:
  "down_ok_outcome (one_env 150 {0} 1150000 1000000) 0 (one_domain spec_table {0})
     = Some (True, 2) \<and>
   down_ok_outcome (one_env 150 {0} 1150000 1000000) 0 (one_domain spec_table {0})
     \<noteq> Some (False, 0)"
  by (simp add: example_defs state_scan.simps)

lemma state_scan_cases:
  "(state_scan sts sl lim (int n) = - 1 \<and> (\<forall>j. j \<le> n \<longrightarrow> \<not> accepts sts sl lim j)) \<or>
   (\<exists>k. k \<le> n \<and> state_scan sts sl lim (int n) = int k \<and> accepts sts sl lim k \<and>
        (\<forall>j. k < j \<and> j \<le> n \<longrightarrow> \<not> accepts sts sl lim j))"
proof -
  let ?P = "\<lambda>j. j \<le> n \<and> accepts sts sl lim j"
  show ?thesis
  proof (cases "\<exists>j. ?P j")
    case False
    then have "\<forall>j. j \<le> n \<longrightarrow> \<not> accepts sts sl lim j" by blast
    then show ?thesis using state_scan_none by blast
  next
    case True
    then obtain j where j: "?P j" ..
    have bound: "\<forall>y. ?P y \<longrightarrow> y \<le> n" by simp
    have g: "?P (Greatest ?P)" using GreatestI_nat [of ?P j n] j bound by blast
    have m: "\<And>y. ?P y \<Longrightarrow> y \<le> Greatest ?P" using Greatest_le_nat [of ?P _ n] bound by blast
    have "\<forall>i. Greatest ?P < i \<and> i \<le> n \<longrightarrow> \<not> accepts sts sl lim i"
      using m by (meson not_less)
    then show ?thesis using g state_scan_break [of "Greatest ?P" n sts sl lim] by blast
  qed
qed

lemma down_ok_cases:
  assumes "to_cpu_pd s g = Inr (Some p)" and "sleep_ns_of E (cpus (cpu_pds s p)) = sl"
  shows "(cpu_pd_down_ok E g s = Inr (False, set_state_idx g 0 s) \<and>
          (pm_qos_request E = 0 \<or> sl = 0 \<or>
           (\<forall>j. j < length (states (genpds s g)) \<longrightarrow>
              \<not> accepts (states (genpds s g)) sl (qos_limit (pm_qos_request E)) j))) \<or>
         (\<exists>k. k < length (states (genpds s g)) \<and>
            cpu_pd_down_ok E g s = Inr (True, set_state_idx g k s) \<and>
            pm_qos_request E \<noteq> 0 \<and> sl \<noteq> 0 \<and>
            accepts (states (genpds s g)) sl (qos_limit (pm_qos_request E)) k \<and>
            (\<forall>j. k < j \<and> j < length (states (genpds s g)) \<longrightarrow>
              \<not> accepts (states (genpds s g)) sl (qos_limit (pm_qos_request E)) j))"
proof (cases "pm_qos_request E = 0 \<or> sl = 0")
  case True
  then show ?thesis using assms by (auto simp: cpu_pd_down_ok_def Let_def)
next
  case False
  let ?sts = "states (genpds s g)" and ?lim = "qos_limit (pm_qos_request E)"
  show ?thesis
  proof (cases "length ?sts")
    case 0
    then show ?thesis using down_ok_veto [OF assms] by simp
  next
    case (Suc n)
    from state_scan_cases [of ?sts sl ?lim n] show ?thesis
    proof (elim disjE exE conjE)
      assume "\<forall>j. j \<le> n \<longrightarrow> \<not> accepts ?sts sl ?lim j"
      then have none: "\<forall>j. j < length ?sts \<longrightarrow> \<not> accepts ?sts sl ?lim j" using Suc by simp
      then show ?thesis using down_ok_veto [OF assms none] by blast
    next
      fix k assume k: "k \<le> n" "accepts ?sts sl ?lim k"
        "\<forall>j. k < j \<and> j \<le> n \<longrightarrow> \<not> accepts ?sts sl ?lim j"
      then have kl: "k < length ?sts" and
        d: "\<forall>j. k < j \<and> j < length ?sts \<longrightarrow> \<not> accepts ?sts sl ?lim j" using Suc by auto
      have "cpu_pd_down_ok E g s = Inr (True, set_state_idx g k s)"
        using down_ok_accept [OF assms(1) _ assms(2) _ kl k(2) d] False by simp
      then show ?thesis using kl k(2) d False by blast
    qed
  qed
qed

lemma earliest_all_offline:
  "m \<inter> cpu_online_mask E = {} \<Longrightarrow> earliest_wakeup E m = KTIME_MAX"
proof -
  assume "m \<inter> cpu_online_mask E = {}"
  then have "for_each_cpu_and (nr_cpu_ids E) m (cpu_online_mask E) = []"
    by (auto simp: for_each_cpu_and_def filter_empty_conv)
  then show ?thesis by (simp add: earliest_wakeup_def ktime_set_def)
qed

section \<open>A domain whose member CPUs are all offline\<close>

text \<open>
  C3, as the code has it. For every domain all of whose member CPUs are offline, the
  earliest wakeup keeps its initial value \<open>KTIME_MAX\<close>, the largest \<open>ktime_t\<close> value, and
  the available sleep is \<open>KTIME_MAX - now\<close>, which is zero only when \<open>now\<close> is
  \<open>KTIME_MAX\<close> itself. \<open>cpu_pd_down_ok\<close> then vetoes exactly when the latency tolerance
  is 0, or \<open>now\<close> is \<open>KTIME_MAX\<close>, or no state of the table has a total cost that fits
  that window and is strictly below the tolerance; otherwise it permits power-down. So
  it can veto with a non-zero tolerance.
\<close>

theorem all_offline_down_ok:
  assumes "to_cpu_pd s g = Inr (Some p)"
    and "cpus (cpu_pds s p) \<inter> cpu_online_mask E = {}"
  shows "earliest_wakeup E (cpus (cpu_pds s p)) = KTIME_MAX \<and>
         sleep_ns_of E (cpus (cpu_pds s p)) = KTIME_MAX - ktime_get E \<and>
         (sleep_ns_of E (cpus (cpu_pds s p)) = 0 \<longleftrightarrow> ktime_get E = KTIME_MAX) \<and>
         (if pm_qos_request E = 0 \<or> ktime_get E = KTIME_MAX \<or>
             (\<forall>j. j < length (states (genpds s g)) \<longrightarrow>
                \<not> accepts (states (genpds s g)) (KTIME_MAX - ktime_get E)
                    (qos_limit (pm_qos_request E)) j)
          then cpu_pd_down_ok E g s = Inr (False, set_state_idx g 0 s)
          else (\<exists>k. k < length (states (genpds s g)) \<and>
                  accepts (states (genpds s g)) (KTIME_MAX - ktime_get E)
                    (qos_limit (pm_qos_request E)) k \<and>
                  cpu_pd_down_ok E g s = Inr (True, set_state_idx g k s)))"
proof -
  have e: "earliest_wakeup E (cpus (cpu_pds s p)) = KTIME_MAX"
    using assms(2) by (rule earliest_all_offline)
  then have sl: "sleep_ns_of E (cpus (cpu_pds s p)) = KTIME_MAX - ktime_get E"
    by (simp add: sleep_ns_of_def)
  have z: "KTIME_MAX - ktime_get E = 0 \<longleftrightarrow> ktime_get E = KTIME_MAX" by auto
  show ?thesis using down_ok_cases [OF assms(1) sl] e sl z by auto
qed

theorem all_offline_down_ok_witness:
  "to_cpu_pd (one_domain spec_table {0, 1}) 0 = Inr (Some 0) \<and>
   cpus (cpu_pds (one_domain spec_table {0, 1}) 0) \<inter> cpu_online_mask (one_env 5 {} 0 1000000) = {} \<and>
   sleep_ns_of (one_env 5 {} 0 1000000) (cpus (cpu_pds (one_domain spec_table {0, 1}) 0))
     = KTIME_MAX - 1000000 \<and>
   cpu_pd_down_ok (one_env 5 {} 0 1000000) 0 (one_domain spec_table {0, 1})
     = Inr (False, set_state_idx 0 0 (one_domain spec_table {0, 1}))"
proof -
  have h1: "to_cpu_pd (one_domain spec_table {0, 1}) 0 = Inr (Some 0)"
    by (simp add: to_cpu_pd_def one_domain_def)
  have h2: "cpus (cpu_pds (one_domain spec_table {0, 1}) 0) \<inter> cpu_online_mask (one_env 5 {} 0 1000000) = {}"
    by (simp add: one_env_def)
  have n: "ktime_get (one_env 5 {} 0 1000000) = 1000000" by (simp add: one_env_def)
  have none: "\<forall>j. j < length (states (genpds (one_domain spec_table {0, 1}) 0)) \<longrightarrow>
               \<not> accepts (states (genpds (one_domain spec_table {0, 1}) 0)) (KTIME_MAX - 1000000)
                   (qos_limit (pm_qos_request (one_env 5 {} 0 1000000))) j"
    by (simp add: one_domain_def spec_table_def idle_state_def accepts_def state_sleep_ns_def
        one_env_def qos_limit_def NSEC_PER_USEC_def All_less_Suc less_Suc_eq numeral_3_eq_3)
  show ?thesis using all_offline_down_ok [OF h1 h2] h1 h2 none by (simp add: n)
qed

text \<open>
  All member CPUs offline, tolerance 5 microseconds, the example table: no state costs
  less than the tolerance, and the call vetoes although the tolerance is not 0.
\<close>

theorem all_offline_down_ok_counterexample:
  "pm_qos_request (one_env 5 {} 0 1000000) \<noteq> 0 \<and>
   cpus (cpu_pds (one_domain spec_table {0, 1}) 0) \<inter> cpu_online_mask (one_env 5 {} 0 1000000) = {} \<and>
   down_ok_outcome (one_env 5 {} 0 1000000) 0 (one_domain spec_table {0, 1}) = Some (False, 0)"
  by (simp add: example_defs state_scan.simps)

section \<open>A wakeup that lies in the past\<close>

text \<open>
  C6 at a concrete input. The only online member CPU has its next wakeup at 999995 ns
  and the current time is 1000000 ns, so the available sleep is -5 ns. The difference is
  stored in a \<open>u64\<close>, where it is a huge positive number, the test \<open>sleep_ns <= 0\<close> does
  not fire, and with the example table and a tolerance of 20 microseconds the call
  permits power-down with index 0.
\<close>

theorem negative_window_permits:
  "earliest_wakeup (one_env 20 {0} 999995 1000000) (cpus (cpu_pds (one_domain spec_table {0}) 0))
     = 999995 \<and>
   ktime_get (one_env 20 {0} 999995 1000000) = 1000000 \<and>
   sint (sleep_ns_of (one_env 20 {0} 999995 1000000) (cpus (cpu_pds (one_domain spec_table {0}) 0)))
     = - 5 \<and>
   down_ok_outcome (one_env 20 {0} 999995 1000000) 0 (one_domain spec_table {0}) = Some (True, 0)"
  by (simp add: example_defs state_scan.simps)

section \<open>A latency tolerance of zero\<close>



section \<open>What the governor changes\<close>

text \<open>
  C9. Every evaluation of \<open>cpu_pd_down_ok\<close> that returns changes only the selected-state
  index of the domain it is called for: the registry entries (member CPU sets, parent
  links, platform callbacks), the registry list, the allocator, the freed objects, the
  providers, every other domain, and every other field of this domain (its idle-state table among them)
  are as before.
\<close>

theorem down_ok_frame:
  assumes "cpu_pd_down_ok E g s = Inr (b, s')"
  shows "cpu_pds s' = cpu_pds s \<and> of_cpu_pd_list s' = of_cpu_pd_list s \<and>
         next_genpd s' = next_genpd s \<and> next_cpu_pd s' = next_cpu_pd s \<and>
         freed_genpds s' = freed_genpds s \<and> freed_cpu_pds s' = freed_cpu_pds s \<and>
         providers s' = providers s \<and>
         (\<forall>d. d \<noteq> g \<longrightarrow> genpds s' d = genpds s d) \<and>
         genpds s' g = (genpds s g)\<lparr>state_idx := state_idx (genpds s' g)\<rparr>"
proof -
  have "\<exists>i. s' = set_state_idx g i s"
    using assms
    by (auto simp: cpu_pd_down_ok_def Let_def split: if_splits option.splits sum.splits)
  then obtain i where "s' = set_state_idx g i s" ..
  then show ?thesis by (simp add: set_state_idx_def)
qed

theorem down_ok_frame_witness:
  "cpu_pd_down_ok (one_env 150 {0} 1150000 1000000) 0 (one_domain spec_table {0, 3})
     = Inr (True, set_state_idx 0 2 (one_domain spec_table {0, 3})) \<and>
   cpus (cpu_pds (set_state_idx 0 2 (one_domain spec_table {0, 3})) 0) = {0, 3} \<and>
   states (genpds (set_state_idx 0 2 (one_domain spec_table {0, 3})) 0) = spec_table \<and>
   genpds (set_state_idx 0 2 (one_domain spec_table {0, 3})) 1 = genpds (one_domain spec_table {0, 3}) 1"
proof -
  have h: "cpu_pd_down_ok (one_env 150 {0} 1150000 1000000) 0 (one_domain spec_table {0, 3})
     = Inr (True, set_state_idx 0 2 (one_domain spec_table {0, 3}))"
    by (simp add: example_defs state_scan.simps)
  show ?thesis using down_ok_frame [OF h] h by (simp add: one_domain_def)
qed

section \<open>Membership propagation\<close>

lemma parent_chain_cong:
  "parent_chain h cp ps \<Longrightarrow> (\<And>q. parent (h' q) = parent (h q)) \<Longrightarrow> parent_chain h' cp ps"
proof (induction rule: parent_chain.induct)
  case (chain_end h)
  show ?case by (rule parent_chain.chain_end)
next
  case (chain_step h p ps)
  then have "parent_chain h' (parent (h' p)) ps" by simp
  then show ?case by (rule parent_chain.chain_step)
qed

lemma parent_cpumask_set_cpu [simp]:
  "parent (cpu_pds (cpumask_set_cpu cpu p s) q) = parent (cpu_pds s q)"
  by (simp add: cpumask_set_cpu_def)

lemma add_cpu_to_set_cpu:
  "add_cpu_to cpu A (cpumask_set_cpu cpu p s) = add_cpu_to cpu (insert p A) s"
  by (auto simp: add_cpu_to_def cpumask_set_cpu_def fun_eq_iff)

lemma add_cpu_to_empty [simp]: "add_cpu_to cpu {} s = s"
  by (simp add: add_cpu_to_def)

lemma attach_loop_chain:
  "parent_chain h cp ps \<Longrightarrow> (\<And>q. parent (cpu_pds s q) = parent (h q)) \<Longrightarrow>
     attach_loop 0 cpu cp s = Some (add_cpu_to cpu (set ps) s)"
proof (induction arbitrary: s rule: parent_chain.induct)
  case (chain_end h)
  show ?case by (simp add: attach_loop.simps)
next
  case (chain_step h p ps)
  have "attach_loop 0 cpu (Some p) s
      = attach_loop 0 cpu (parent (cpu_pds s p)) (cpumask_set_cpu cpu p s)"
    by (subst attach_loop.simps) simp
  also have "\<dots> = attach_loop 0 cpu (parent (h p)) (cpumask_set_cpu cpu p s)"
    by (simp add: chain_step.prems)
  also have "\<dots> = Some (add_cpu_to cpu (set ps) (cpumask_set_cpu cpu p s))"
    by (rule chain_step.IH) (simp add: chain_step.prems)
  finally show ?case by (simp add: add_cpu_to_set_cpu)
qed

lemma attach_loop_returns_chain:
  assumes a: "attach_loop ret cpu cp s = Some s1"
  shows "ret = 0 \<longrightarrow> (\<exists>ps. parent_chain (cpu_pds s) cp ps)"
proof (rule attach_loop.raw_induct
    [where P = "\<lambda>ret cpu cp s s1. ret = 0 \<longrightarrow> (\<exists>ps. parent_chain (cpu_pds s) cp ps)", OF _ a])
  fix f :: "int \<Rightarrow> nat \<Rightarrow> cpu_pd_ptr option \<Rightarrow> state \<Rightarrow> state option"
  fix r c cpu_pd t y
  assume IH: "\<And>r c cpu_pd t y. f r c cpu_pd t = Some y \<Longrightarrow>
      r = 0 \<longrightarrow> (\<exists>ps. parent_chain (cpu_pds t) cpu_pd ps)"
  assume eq: "(if r = 0 then (case cpu_pd of None \<Rightarrow> Some t
      | Some p \<Rightarrow> f r c (parent (cpu_pds t p)) (cpumask_set_cpu c p t)) else Some t) = Some y"
  show "r = 0 \<longrightarrow> (\<exists>ps. parent_chain (cpu_pds t) cpu_pd ps)"
  proof
    assume r0: "r = 0"
    show "\<exists>ps. parent_chain (cpu_pds t) cpu_pd ps"
    proof (cases cpu_pd)
      case None
      then show ?thesis using parent_chain.chain_end by blast
    next
      case (Some p)
      with eq r0 have "f r c (parent (cpu_pds t p)) (cpumask_set_cpu c p t) = Some y" by simp
      from IH [OF this] r0 obtain ps where
        "parent_chain (cpu_pds (cpumask_set_cpu c p t)) (parent (cpu_pds t p)) ps" by blast
      then have "parent_chain (cpu_pds t) (parent (cpu_pds t p)) ps"
        by (rule parent_chain_cong) simp
      then have "parent_chain (cpu_pds t) (Some p) (p # ps)" by (rule parent_chain.chain_step)
      then show ?thesis using Some by blast
    qed
  qed
qed

lemma attach_loop_fail: "ret \<noteq> 0 \<Longrightarrow> attach_loop ret cpu cp s = Some s"
  by (subst attach_loop.simps) simp

lemma add_cpu_to_idem [simp]: "add_cpu_to cpu A (add_cpu_to cpu A s) = add_cpu_to cpu A s"
  by (auto simp: add_cpu_to_def fun_eq_iff)

lemma add_cpu_to_fields [simp]:
  "parent (cpu_pds (add_cpu_to cpu A s) q) = parent (cpu_pds s q)"
  "genpd (cpu_pds (add_cpu_to cpu A s) q) = genpd (cpu_pds s q)"
  "ops (cpu_pds (add_cpu_to cpu A s) q) = ops (cpu_pds s q)"
  "genpds (add_cpu_to cpu A s) = genpds s"
  "of_cpu_pd_list (add_cpu_to cpu A s) = of_cpu_pd_list s"
  "next_genpd (add_cpu_to cpu A s) = next_genpd s"
  "next_cpu_pd (add_cpu_to cpu A s) = next_cpu_pd s"
  "providers (add_cpu_to cpu A s) = providers s"
  by (simp_all add: add_cpu_to_def)

lemma cpus_add_cpu_to:
  "cpus (cpu_pds (add_cpu_to cpu A s) q) =
     (if q \<in> A then insert cpu (cpus (cpu_pds s q)) else cpus (cpu_pds s q))"
  by (simp add: add_cpu_to_def)

text \<open>
  C4, as the code has it. For every CPU attach (\<open>cpu_pd_attach_cpu\<close>) whose CPU has a
  device: when the generic device-attach step succeeded (returned 0), the CPU id is
  inserted into the member set of the leaf domain and of every ancestor along the parent
  chain, and into no other; when that step reported a failure, the failure code is
  returned and no member set is changed.
\<close>

theorem attach_propagates_on_success:
  assumes "get_cpu_device P cpu = Some dev"
  shows "(genpd_dev_pm_attach P dev = 0 \<and> parent_chain (cpu_pds s) (Some leaf) ps \<longrightarrow>
           (\<exists>s'. cpu_pd_attach_cpu P (Some leaf) cpu s = Some (0, s') \<and>
                 (\<forall>p. p \<in> set ps \<longrightarrow> cpus (cpu_pds s' p) = insert cpu (cpus (cpu_pds s p))) \<and>
                 (\<forall>p. p \<notin> set ps \<longrightarrow> cpus (cpu_pds s' p) = cpus (cpu_pds s p)))) \<and>
         (genpd_dev_pm_attach P dev \<noteq> 0 \<longrightarrow>
            cpu_pd_attach_cpu P (Some leaf) cpu s = Some (genpd_dev_pm_attach P dev, s))"
proof (intro conjI impI)
  assume a: "genpd_dev_pm_attach P dev = 0 \<and> parent_chain (cpu_pds s) (Some leaf) ps"
  then have "attach_loop 0 cpu (Some leaf) s = Some (add_cpu_to cpu (set ps) s)"
    by (intro attach_loop_chain [of "cpu_pds s"]) auto
  then have "cpu_pd_attach_cpu P (Some leaf) cpu s = Some (0, add_cpu_to cpu (set ps) s)"
    using assms a by (simp add: cpu_pd_attach_cpu_def)
  then show "\<exists>s'. cpu_pd_attach_cpu P (Some leaf) cpu s = Some (0, s') \<and>
      (\<forall>p. p \<in> set ps \<longrightarrow> cpus (cpu_pds s' p) = insert cpu (cpus (cpu_pds s p))) \<and>
      (\<forall>p. p \<notin> set ps \<longrightarrow> cpus (cpu_pds s' p) = cpus (cpu_pds s p))"
    by (simp add: cpus_add_cpu_to)
next
  assume "genpd_dev_pm_attach P dev \<noteq> 0"
  then show "cpu_pd_attach_cpu P (Some leaf) cpu s = Some (genpd_dev_pm_attach P dev, s)"
    using assms by (simp add: cpu_pd_attach_cpu_def attach_loop_fail)
qed

lemma chain_state_chain: "parent_chain (cpu_pds chain_state) (Some 0) [0, 1, 2]"
proof -
  have "parent_chain (cpu_pds chain_state) (parent (cpu_pds chain_state 2)) []"
    by (simp add: chain_state_def parent_chain.chain_end)
  then have "parent_chain (cpu_pds chain_state) (Some 2) [2]" by (rule parent_chain.chain_step)
  then have "parent_chain (cpu_pds chain_state) (parent (cpu_pds chain_state 1)) [2]"
    by (simp add: chain_state_def numeral_2_eq_2)
  then have "parent_chain (cpu_pds chain_state) (Some 1) [1, 2]" by (rule parent_chain.chain_step)
  then have "parent_chain (cpu_pds chain_state) (parent (cpu_pds chain_state 0)) [1, 2]"
    by (simp add: chain_state_def)
  then show ?thesis by (rule parent_chain.chain_step)
qed

theorem attach_propagates_on_success_witness:
  "get_cpu_device (attach_env 0) 3 = Some 3 \<and> genpd_dev_pm_attach (attach_env 0) 3 = 0 \<and>
   parent_chain (cpu_pds chain_state) (Some 0) [0, 1, 2] \<and>
   (\<exists>s'. cpu_pd_attach_cpu (attach_env 0) (Some 0) 3 chain_state = Some (0, s') \<and>
         cpus (cpu_pds s' 0) = {3} \<and> cpus (cpu_pds s' 1) = {3} \<and> cpus (cpu_pds s' 2) = {3} \<and>
         cpus (cpu_pds s' 5) = {}) \<and>
   get_cpu_device (attach_env (- 16)) 3 = Some 3 \<and> genpd_dev_pm_attach (attach_env (- 16)) 3 \<noteq> 0 \<and>
   cpu_pd_attach_cpu (attach_env (- 16)) (Some 0) 3 chain_state = Some (- 16, chain_state)"
proof -
  have d: "get_cpu_device (attach_env r) 3 = Some 3" for r by (simp add: attach_env_def)
  have r: "genpd_dev_pm_attach (attach_env r) 3 = r" for r by (simp add: attach_env_def)
  have c: "cpus (cpu_pds chain_state q) = {}" for q by (simp add: chain_state_def)
  show ?thesis
    using attach_propagates_on_success [OF d, of 0 chain_state 0 "[0, 1, 2]"]
      attach_propagates_on_success [OF d, of "- 16" chain_state 0 "[0, 1, 2]"]
      chain_state_chain
    by (auto simp: d r c)
qed

text \<open>
  The generic attach step fails with code -16: CPU 3 is in no member set afterwards.
\<close>

theorem attach_propagates_on_success_counterexample:
  "get_cpu_device (attach_env (- 16)) 3 = Some 3 \<and>
   cpu_pd_attach_cpu (attach_env (- 16)) (Some 0) 3 chain_state = Some (- 16, chain_state) \<and>
   3 \<notin> cpus (cpu_pds chain_state 0) \<and> 3 \<notin> cpus (cpu_pds chain_state 1)"
  by (simp add: cpu_pd_attach_cpu_def attach_env_def chain_state_def attach_loop.simps)

text \<open>
  C8. Attaching the same CPU twice to the same domain leaves every member set as it was
  after the single attach: a second \<open>cpu_pd_attach_cpu\<close> of that CPU to that domain
  returns the same code and leaves the whole state unchanged, so nothing is propagated
  a second time; and once the CPU has been attached, this holds whatever the
  collaborators report the second time. A member set is a CPU mask, which holds no
  duplicates.
\<close>

theorem attach_twice_unchanged:
  assumes "cpu_pd_attach_cpu P cpu_pd cpu s = Some (r, s1)"
  shows "cpu_pd_attach_cpu P cpu_pd cpu s1 = Some (r, s1) \<and>
         (r = 0 \<longrightarrow> (\<forall>P'. \<exists>r'. cpu_pd_attach_cpu P' cpu_pd cpu s1 = Some (r', s1)))"
proof (cases "r = 0")
  case False
  have "s1 = s"
    using assms False
    by (auto simp: cpu_pd_attach_cpu_def Let_def attach_loop_fail split: option.splits)
  then show ?thesis using assms False by simp
next
  case True
  from assms True obtain dev where dev: "get_cpu_device P cpu = Some dev"
    and r0: "genpd_dev_pm_attach P dev = 0"
    and l: "attach_loop 0 cpu cpu_pd s = Some s1"
    by (auto simp: cpu_pd_attach_cpu_def ENODEV_def Let_def split: option.splits)
  from attach_loop_returns_chain [OF l] obtain ps where ch: "parent_chain (cpu_pds s) cpu_pd ps"
    by blast
  have s1: "s1 = add_cpu_to cpu (set ps) s"
    using attach_loop_chain [OF ch, of s cpu] l by simp
  have ch1: "parent_chain (cpu_pds s1) cpu_pd ps"
    using ch by (rule parent_chain_cong) (simp add: s1)
  have again: "attach_loop 0 cpu cpu_pd s1 = Some s1"
    using attach_loop_chain [OF ch1, of s1 cpu] by (simp add: s1)
  have same: "cpu_pd_attach_cpu P cpu_pd cpu s1 = Some (r, s1)"
    using dev r0 again True by (simp add: cpu_pd_attach_cpu_def)
  have any: "\<exists>r'. cpu_pd_attach_cpu P' cpu_pd cpu s1 = Some (r', s1)" for P'
  proof (cases "get_cpu_device P' cpu")
    case None
    then show ?thesis by (simp add: cpu_pd_attach_cpu_def)
  next
    case (Some dev')
    show ?thesis
    proof (cases "genpd_dev_pm_attach P' dev' = 0")
      case True
      then show ?thesis using Some again by (simp add: cpu_pd_attach_cpu_def)
    next
      case False
      then show ?thesis using Some by (simp add: cpu_pd_attach_cpu_def attach_loop_fail)
    qed
  qed
  show ?thesis using same any by blast
qed

theorem attach_twice_unchanged_witness:
  "cpu_pd_attach_cpu (attach_env 0) (Some 0) 3 chain_state
     = Some (0, add_cpu_to 3 {0, 1, 2} chain_state) \<and>
   cpus (cpu_pds (add_cpu_to 3 {0, 1, 2} chain_state) 1) = {3} \<and>
   cpu_pd_attach_cpu (attach_env 0) (Some 0) 3 (add_cpu_to 3 {0, 1, 2} chain_state)
     = Some (0, add_cpu_to 3 {0, 1, 2} chain_state) \<and>
   (\<exists>r. cpu_pd_attach_cpu (attach_env (- 16)) (Some 0) 3 (add_cpu_to 3 {0, 1, 2} chain_state)
          = Some (r, add_cpu_to 3 {0, 1, 2} chain_state))"
proof -
  have "attach_loop 0 3 (Some 0) chain_state = Some (add_cpu_to 3 (set [0, 1, 2]) chain_state)"
    by (rule attach_loop_chain [OF chain_state_chain]) simp
  then have h: "cpu_pd_attach_cpu (attach_env 0) (Some 0) 3 chain_state
     = Some (0, add_cpu_to 3 {0, 1, 2} chain_state)"
    by (simp add: cpu_pd_attach_cpu_def attach_env_def)
  have c: "cpus (cpu_pds (add_cpu_to 3 {0, 1, 2} chain_state) 1) = {3}"
    by (simp add: cpus_add_cpu_to chain_state_def)
  show ?thesis using attach_twice_unchanged [OF h] h c by simp
qed

section \<open>The registry only grows\<close>

lemma list_lookup_Some:
  "list_lookup F h d ps = Inr (Some p) \<Longrightarrow> p \<in> set ps \<and> genpd (h p) = Some d \<and> p \<notin> F"
  by (induction ps) (auto split: if_splits)

lemma list_lookup_intact:
  "set ps \<inter> F = {} \<Longrightarrow> \<exists>p \<in> set ps. genpd (h p) = Some d \<Longrightarrow>
     \<exists>p. list_lookup F h d ps = Inr (Some p)"
  by (induction ps) auto

lemma lookup_intact:
  assumes "list_intact s" and "registered s g"
  shows "\<exists>pd. to_cpu_pd s g = Inr (Some pd) \<and> genpd (cpu_pds s pd) = Some g"
proof -
  from assms obtain pd where "to_cpu_pd s g = Inr (Some pd)"
    using list_lookup_intact [of "of_cpu_pd_list s" "freed_cpu_pds s" "cpu_pds s" g]
    by (auto simp: list_intact_def registered_def to_cpu_pd_def)
  then show ?thesis using list_lookup_Some by (fastforce simp: to_cpu_pd_def)
qed



lemma grows_same_registry:
  "next_cpu_pd s' = next_cpu_pd s \<Longrightarrow> of_cpu_pd_list s' = of_cpu_pd_list s \<Longrightarrow>
     (\<And>p. genpd (cpu_pds s' p) = genpd (cpu_pds s p)) \<Longrightarrow>
     (\<And>p. cpus (cpu_pds s p) \<subseteq> cpus (cpu_pds s' p)) \<Longrightarrow> grows s s'"
  by (simp add: grows_def)

lemma down_ok_grows: "cpu_pd_down_ok E g s = Inr (b, s') \<Longrightarrow> grows s s'"
  by (rule grows_same_registry)
     (auto simp: cpu_pd_down_ok_def Let_def set_state_idx_def
        split: if_splits option.splits sum.splits)




lemma init_registers:
  assumes "of_init_cpu_pm_domain P dn ops' s = Inr (Inr g, s')"
  shows "registered s' g"
  using assms
  by (auto simp: of_init_cpu_pm_domain_def Let_def registered_def split: if_splits)






section \<open>The callbacks of a registered domain\<close>

text \<open>
  Where the list is intact, the lookup of a registered domain returns an entry that
  refers to it, and a domain that \<open>of_init_cpu_pm_domain\<close> returns is registered and
  found at the head of the list.
\<close>

lemma init_lookup:
  assumes "of_init_cpu_pm_domain P dn ops' s = Inr (Inr g, s1)"
    and "next_cpu_pd s \<notin> freed_cpu_pds s"
  shows "to_cpu_pd s1 g = Inr (Some (next_cpu_pd s))"
  using assms
  by (auto simp: of_init_cpu_pm_domain_def Let_def to_cpu_pd_def split: if_splits)

text \<open>
  C10 at a concrete input. \<open>of_init_cpu_pm_domain\<close> creates and registers domain 0 for
  node 20, and the lookup and \<open>cpu_pd_power_on\<close> find its entry. A later call for node 21,
  in which \<open>of_pm_genpd_init\<close> returns -22, frees its own entry 1 on the failure path but
  leaves it at the head of the list. From then on the lookup of domain 0 reads the
  freed entry first: it returns no matching entry, and \<open>cpu_pd_power_on\<close> and
  \<open>cpu_pd_power_off\<close> of domain 0 use that result.
\<close>

theorem freed_entry_breaks_lookup:
  "\<exists>s1 s2.
     of_init_cpu_pm_domain (dt_env 0 2 (\<lambda>dn. if dn = 21 then - 22 else 0)) 20 no_ops empty_state
       = Inr (Inr 0, s1) \<and>
     to_cpu_pd s1 0 = Inr (Some 0) \<and> cpu_pd_power_on s1 0 = Inr 0 \<and>
     of_init_cpu_pm_domain (dt_env 0 2 (\<lambda>dn. if dn = 21 then - 22 else 0)) 21 no_ops s1
       = Inr (Inl (- 22), s2) \<and>
     of_cpu_pd_list s2 = [1, 0] \<and> freed_cpu_pds s2 = {1} \<and>
     to_cpu_pd s2 0 = Inl UseAfterFree \<and>
     cpu_pd_power_on s2 0 = Inl UseAfterFree \<and>
     cpu_pd_power_off s2 0 = Inl UseAfterFree"
  by (simp add: dt_defs cpu_pd_power_on_def cpu_pd_power_off_def)

text \<open>
  The same happens inside one call of \<open>of_setup_cpu_pd_single\<close>, when the parent node of
  the CPU's domain fails in \<open>of_pm_genpd_init\<close>.
\<close>

lemma single_hits_freed:
  "of_setup_cpu_pd_single (dt_env 0 2 (\<lambda>dn. if dn = 21 then - 22 else 0)) 1 no_ops empty_state
     = Some (Inl UseAfterFree)"
  by (simp add: dt_defs of_get_cpu_domain.simps)

section \<open>Setting up all possible CPUs\<close>





end
